theory Spec2Isabelle
  imports Complex_Main "HOL-Library.Sublist" "HOL-Library.Multiset"
begin

section \<open>The lottery ledger of controllers/lotteryController.js\<close>

text \<open>
  The ledger is one JSON document, \<^verbatim>\<open>{ "draws": [...], "tickets": [...] }\<close>.
  Identifiers and timestamps are strings, a ticket's \<^verbatim>\<open>drawId\<close> is a string or
  \<^verbatim>\<open>null\<close> (here \<open>None\<close>), number arrays hold integers.
\<close>

record draw =
  d_id :: string
  d_numbers :: "int list"
  d_date :: string

record ticket =
  t_id :: string
  t_userId :: string
  t_numbers :: "int list"
  t_drawId :: "string option"
  t_purchasedAt :: string

record db =
  draws :: "draw list"
  tickets :: "ticket list"

definition empty_db :: db where
  "empty_db = \<lparr>draws = [], tickets = []\<rparr>"

subsection \<open>Configured limits\<close>

text \<open>
  \<^verbatim>\<open>Number(process.env.X) || dflt\<close>: an unset or non-numeric variable (\<open>None\<close>) and the
  value 0 are falsy and give the default.
\<close>

definition env_limit :: "int option \<Rightarrow> int \<Rightarrow> int" where
  "env_limit v dflt = (case v of None \<Rightarrow> dflt | Some n \<Rightarrow> if n = 0 then dflt else n)"

record config =
  MAX_TICKETS_PER_DRAW :: int
  MAX_TICKETS_PER_USER :: int

definition config_of_env :: "int option \<Rightarrow> int option \<Rightarrow> config" where
  "config_of_env per_draw per_user =
     \<lparr>MAX_TICKETS_PER_DRAW = env_limit per_draw 1000,
      MAX_TICKETS_PER_USER = env_limit per_user 100\<rparr>"

subsection \<open>Double arithmetic\<close>

text \<open>
  A JavaScript number is an IEEE 754 double. The finite doubles are rationals, and the
  product of two doubles is the exact product rounded to the nearest double, ties to the
  even significand. \<open>exponent x\<close> is the binary exponent of the binade of \<open>x\<close>, not
  below -1022 (the subnormal numbers share the spacing of the smallest normal ones) and
  not above 1023; the doubles of a binade are spaced \<open>2 powi (exponent x - 52)\<close> apart.
  Overflow to infinity is not modelled: the products taken here are below 49.
\<close>

definition round_half_even :: "rat \<Rightarrow> int" where
  "round_half_even y =
     (let f = \<lfloor>y\<rfloor>; d = y - of_int f in
      if d < 1/2 then f
      else if 1/2 < d then f + 1
      else if even f then f else f + 1)"

fun up :: "nat \<Rightarrow> int \<Rightarrow> rat \<Rightarrow> int" where
  "up n e x = (if n = 0 \<or> x < 2 powi (e + 1) then e else up (n - 1) (e + 1) x)"

fun down :: "nat \<Rightarrow> int \<Rightarrow> rat \<Rightarrow> int" where
  "down n e x = (if n = 0 \<or> 2 powi e \<le> x then e else down (n - 1) (e - 1) x)"

declare up.simps [simp del] down.simps [simp del]

definition exponent :: "rat \<Rightarrow> int" where
  "exponent x = (if 1 \<le> x then up 1023 0 x else down 1021 (- 1) x)"

definition nearest :: "rat \<Rightarrow> rat" where
  "nearest x =
     (let ulp = 2 powi (exponent x - 52)
      in of_int (round_half_even (x / ulp)) * ulp)"

definition round_double :: "rat \<Rightarrow> rat" where
  "round_double x = (if x < 0 then - nearest (- x) else nearest x)"

definition is_double :: "rat \<Rightarrow> bool" where
  "is_double x = (round_double x = x \<and> \<bar>x\<bar> < 2 powi 1024)"

definition mul_double :: "rat \<Rightarrow> rat \<Rightarrow> rat" where
  "mul_double a b = round_double (a * b)"

subsection \<open>generateTicketNumbers\<close>

text \<open>
  \<^verbatim>\<open>
  const numbers = new Set();
  while (numbers.size < 6) {
    numbers.add(Math.floor(Math.random() * 49) + 1);
  }
  return Array.from(numbers).sort((a, b) => a - b);
  \<close>
  The successive results of \<^verbatim>\<open>Math.random()\<close> are a list of doubles, read from the
  front; the product with 49 is the double product. A JavaScript \<^verbatim>\<open>Set\<close> keeps
  insertion order and ignores a value it already holds: it is a list without duplicates.
  The loop has no bound of its own; when the samples run out before six distinct numbers
  are collected the result is \<open>None\<close>.
\<close>

definition set_add :: "int list \<Rightarrow> int \<Rightarrow> int list" where
  "set_add numbers n = (if n \<in> set numbers then numbers else numbers @ [n])"

definition random_number :: "rat \<Rightarrow> int" where
  "random_number r = \<lfloor>mul_double r 49\<rfloor> + 1"

fun collect :: "int list \<Rightarrow> rat list \<Rightarrow> int list option" where
  "collect numbers [] = (if length numbers < 6 then None else Some numbers)"
| "collect numbers (r # rs) =
     (if length numbers < 6 then collect (set_add numbers (random_number r)) rs
      else Some numbers)"

definition generateTicketNumbers :: "rat list \<Rightarrow> int list option" where
  "generateTicketNumbers rs = map_option sort (collect [] rs)"

subsection \<open>countMatches and prizeFromMatches\<close>

definition countMatches :: "int list \<Rightarrow> int list \<Rightarrow> nat" where
  "countMatches ticketNumbers drawNumbers =
     length (filter (\<lambda>n. n \<in> set drawNumbers) ticketNumbers)"

definition prizeFromMatches :: "nat \<Rightarrow> string" where
  "prizeFromMatches matches =
     (if matches = 6 then ''Jackpot!''
      else if matches = 5 then ''Big prize''
      else if matches = 4 then ''Small prize''
      else ''No prize'')"

subsection \<open>isAdmin\<close>

text \<open>
  The identity attached to a request, \<^verbatim>\<open>req.user\<close>: each field is a string or is
  missing. A missing field and the empty string are falsy.
\<close>

record identity =
  u_id :: "string option"
  u_role :: "string option"
  u_email :: "string option"

definition truthy :: "string option \<Rightarrow> bool" where
  "truthy v = (case v of None \<Rightarrow> False | Some s \<Rightarrow> s \<noteq> [])"

definition endsWith :: "string \<Rightarrow> string \<Rightarrow> bool" where
  "endsWith s suf =
     (length suf \<le> length s \<and> drop (length s - length suf) s = suf)"

definition isAdmin :: "identity option \<Rightarrow> bool" where
  "isAdmin user =
     (case user of
        None \<Rightarrow> False
      | Some u \<Rightarrow>
          if truthy (u_role u) then u_role u = Some ''admin''
          else (case u_email u of
                  None \<Rightarrow> False
                | Some e \<Rightarrow> endsWith e ''@admin.com''))"

text \<open>
  The predicate as the specification words it: the role test, else the e-mail suffix
  whenever the role test did not give true, false for an absent identity.
\<close>

definition isAdmin_spec :: "identity option \<Rightarrow> bool" where
  "isAdmin_spec user =
     (case user of
        None \<Rightarrow> False
      | Some u \<Rightarrow>
          u_role u = Some ''admin'' \<or>
          (case u_email u of None \<Rightarrow> False | Some e \<Rightarrow> suffix ''@admin.com'' e))"

subsection \<open>The durable store: utils/readWriteJSON.js\<close>

text \<open>
  What the file system can answer when \<^verbatim>\<open>data/lottery.json\<close> is read:
  \<^verbatim>\<open>fs.readFile\<close> rejects with a system error (\<open>ENOENT\<close> when the file does not
  exist), or it yields text that \<^verbatim>\<open>JSON.parse\<close> rejects with a \<^verbatim>\<open>SyntaxError\<close>,
  or text that parses to a document. The documents considered are \<^verbatim>\<open>null\<close> and
  ledgers.
\<close>

datatype errno = ENOENT | EACCES | EISDIR | EIO | ENOSPC

datatype js_error = SystemError errno | SyntaxError

datatype document = JNull | JLedger db

datatype json_file = ReadFails errno | Garbage | Json document

definition err_code :: "js_error \<Rightarrow> errno option" where
  "err_code err = (case err of SystemError c \<Rightarrow> Some c | SyntaxError \<Rightarrow> None)"

definition readFile_parse :: "json_file \<Rightarrow> js_error + document" where
  "readFile_parse f =
     (case f of
        ReadFails c \<Rightarrow> Inl (SystemError c)
      | Garbage \<Rightarrow> Inl SyntaxError
      | Json d \<Rightarrow> Inr d)"

definition readJSON :: "json_file \<Rightarrow> js_error + document" where
  "readJSON f =
     (case readFile_parse f of
        Inr d \<Rightarrow> Inr d
      | Inl err \<Rightarrow>
          if err_code err = Some ENOENT then Inr JNull
          else if err = SyntaxError then Inr JNull
          else Inl err)"

text \<open>
  \<^verbatim>\<open>writeJSON\<close> creates the directory, serialises and overwrites the file. Whether the
  file system refuses is decided outside the program: \<open>fault\<close>. A refused write leaves
  the file as it was; a written ledger reads back as the same ledger.
\<close>

definition writeJSON :: "errno option \<Rightarrow> db \<Rightarrow> json_file \<Rightarrow> js_error + json_file" where
  "writeJSON fault data f =
     (case fault of
        Some c \<Rightarrow> Inl (SystemError c)
      | None \<Rightarrow> Inr (Json (JLedger data)))"

subsection \<open>loadDB and writeDBAtomic\<close>

definition loadDB :: "json_file \<Rightarrow> js_error + db" where
  "loadDB f =
     (case readJSON f of
        Inr data \<Rightarrow> Inr (case data of JNull \<Rightarrow> empty_db | JLedger d \<Rightarrow> d)
      | Inl e \<Rightarrow> Inr empty_db)"

text \<open>
  The module state: the file, the promise \<^verbatim>\<open>pendingWrite\<close> (as it settles), and a
  count of the writes that reached the file.
  \<^verbatim>\<open>
  pendingWrite = pendingWrite.then(() => writeJSON(LOTTERY_DB, payload));
  await pendingWrite;
  \<close>
  \<^verbatim>\<open>then\<close> is given a fulfilment handler only: on a rejected promise the handler is
  not called and the new promise is rejected with the same reason.
\<close>

datatype promise = Fulfilled | Rejected js_error

record server =
  disk :: json_file
  pendingWrite :: promise
  commits :: nat

definition writeDBAtomic :: "errno option \<Rightarrow> db \<Rightarrow> server \<Rightarrow> js_error option \<times> server" where
  "writeDBAtomic fault payload s =
     (case pendingWrite s of
        Rejected e \<Rightarrow> (Some e, s)
      | Fulfilled \<Rightarrow>
          (case writeJSON fault payload (disk s) of
             Inl e \<Rightarrow> (Some e, s\<lparr>pendingWrite := Rejected e\<rparr>)
           | Inr f \<Rightarrow> (None, s\<lparr>disk := f, pendingWrite := Fulfilled, commits := commits s + 1\<rparr>)))"

subsection \<open>The route handlers buyTicket and draw\<close>

text \<open>
  What a handler takes from outside: the identifier \<^verbatim>\<open>uuidv4()\<close> returns, the
  clock, the samples of \<^verbatim>\<open>Math.random()\<close>, and whether the file system refuses
  the write. An error thrown in a handler reaches \<^verbatim>\<open>next(err)\<close>: answer 500.
  A handler whose number generator does not come back gives no answer: \<open>None\<close>.
\<close>

record env =
  env_uuid :: string
  env_now :: string
  env_random :: "rat list"
  env_fault :: "errno option"

datatype cap = PendingCap | UserCap

datatype response =
    Unauthorized401
  | TooManyRequests429 cap
  | Forbidden403
  | BadRequest400
  | Created201_ticket ticket
  | Created201_draw draw
  | InternalError500 js_error

definition userId_of :: "identity option \<Rightarrow> string option" where
  "userId_of user = (case user of None \<Rightarrow> None | Some u \<Rightarrow> u_id u)"

text \<open>\<open>buyTicket\<close> up to the call of \<^verbatim>\<open>writeDBAtomic\<close>: an early answer, or the
  document to write and the new ticket.\<close>

definition buyTicket_prepare ::
  "config \<Rightarrow> env \<Rightarrow> identity option \<Rightarrow> json_file \<Rightarrow> (response + db \<times> ticket) option" where
  "buyTicket_prepare cfg e user f =
     (if \<not> truthy (userId_of user) then Some (Inl Unauthorized401)
      else
        (case loadDB f of
           Inl err \<Rightarrow> Some (Inl (InternalError500 err))
         | Inr d \<Rightarrow>
             let userId = the (userId_of user);
                 ticketsWithoutDraw = filter (\<lambda>t. t_drawId t = None) (tickets d)
             in
             if int (length ticketsWithoutDraw) \<ge> MAX_TICKETS_PER_DRAW cfg
             then Some (Inl (TooManyRequests429 PendingCap))
             else
               let myPending = filter (\<lambda>t. t_userId t = userId) ticketsWithoutDraw in
               if int (length myPending) \<ge> MAX_TICKETS_PER_USER cfg
               then Some (Inl (TooManyRequests429 UserCap))
               else
                 (case generateTicketNumbers (env_random e) of
                    None \<Rightarrow> None
                  | Some numbers \<Rightarrow>
                      let newTicket =
                            \<lparr>t_id = env_uuid e, t_userId = userId, t_numbers = numbers,
                             t_drawId = None, t_purchasedAt = env_now e\<rparr>
                      in Some (Inr (d\<lparr>tickets := tickets d @ [newTicket]\<rparr>, newTicket)))))"

definition buyTicket ::
  "config \<Rightarrow> env \<Rightarrow> identity option \<Rightarrow> server \<Rightarrow> (response \<times> server) option" where
  "buyTicket cfg e user s =
     (case buyTicket_prepare cfg e user (disk s) of
        None \<Rightarrow> None
      | Some (Inl r) \<Rightarrow> Some (r, s)
      | Some (Inr (payload, newTicket)) \<Rightarrow>
          (case writeDBAtomic (env_fault e) payload s of
             (Some err, s') \<Rightarrow> Some (InternalError500 err, s')
           | (None, s') \<Rightarrow> Some (Created201_ticket newTicket, s')))"

definition unfilled :: "db \<Rightarrow> draw \<Rightarrow> bool" where
  "unfilled d dr = (\<not> list_ex (\<lambda>t. t_drawId t = Some (d_id dr)) (tickets d))"

definition assign :: "string \<Rightarrow> ticket \<Rightarrow> ticket" where
  "assign newId t = (if t_drawId t = None then t\<lparr>t_drawId := Some newId\<rparr> else t)"

definition draw :: "env \<Rightarrow> identity option \<Rightarrow> server \<Rightarrow> (response \<times> server) option" where
  "draw e user s =
     (if \<not> isAdmin user then Some (Forbidden403, s)
      else
        (case loadDB (disk s) of
           Inl err \<Rightarrow> Some (InternalError500 err, s)
         | Inr d \<Rightarrow>
             (case find (unfilled d) (draws d) of
                Some openDraw \<Rightarrow> Some (BadRequest400, s)
              | None \<Rightarrow>
                  (case generateTicketNumbers (env_random e) of
                     None \<Rightarrow> None
                   | Some numbers \<Rightarrow>
                       let newDraw = \<lparr>d_id = env_uuid e, d_numbers = numbers, d_date = env_now e\<rparr>;
                           payload = \<lparr>draws = draws d @ [newDraw],
                                      tickets = map (assign (d_id newDraw)) (tickets d)\<rparr>
                       in
                       (case writeDBAtomic (env_fault e) payload s of
                          (Some err, s') \<Rightarrow> Some (InternalError500 err, s')
                        | (None, s') \<Rightarrow> Some (Created201_draw newDraw, s'))))))"

subsection \<open>Handlers one after the other\<close>

text \<open>The states the server passes through when requests are handled one at a time:
  each request is handled to its answer (its write included) before the next one is
  read. Requests in flight together are the subject of the next subsection. The
  handlers that only read leave the state as it is.\<close>

inductive reachable_in_turn :: "config \<Rightarrow> server \<Rightarrow> server \<Rightarrow> bool" for cfg :: config and s :: server where
  here: "reachable_in_turn cfg s s"
| after_buyTicket:
    "reachable_in_turn cfg s s1 \<Longrightarrow> buyTicket cfg e user s1 = Some (r, s2) \<Longrightarrow> reachable_in_turn cfg s s2"
| after_draw:
    "reachable_in_turn cfg s s1 \<Longrightarrow> draw e user s1 = Some (r, s2) \<Longrightarrow> reachable_in_turn cfg s s2"

subsection \<open>Requests in flight together\<close>

text \<open>
  A handler yields at its \<^verbatim>\<open>await\<close>s only. \<open>buyTicket\<close> reads the file, then runs
  without interruption up to \<^verbatim>\<open>pendingWrite.then(...)\<close>, which queues its write behind
  the writes queued before; the answer is sent when that write has settled. A node is
  the module state, the writes queued and not yet run (oldest first), and the answers
  sent so far.
\<close>

record job =
  j_payload :: db
  j_fault :: "errno option"
  j_reply :: response

record node =
  srv :: server
  queue :: "job list"
  replies :: "response list"

definition submit_buyTicket :: "config \<Rightarrow> env \<Rightarrow> identity option \<Rightarrow> node \<Rightarrow> node option" where
  "submit_buyTicket cfg e user n =
     (case buyTicket_prepare cfg e user (disk (srv n)) of
        None \<Rightarrow> None
      | Some (Inl r) \<Rightarrow> Some (n\<lparr>replies := replies n @ [r]\<rparr>)
      | Some (Inr (payload, newTicket)) \<Rightarrow>
          Some (n\<lparr>queue := queue n @
                  [\<lparr>j_payload = payload, j_fault = env_fault e,
                    j_reply = Created201_ticket newTicket\<rparr>]\<rparr>))"

text \<open>\<open>draw\<close> likewise: it reads the file, runs up to \<^verbatim>\<open>writeDBAtomic\<close> and queues
  its write. \<open>draw_prepare\<close> is \<open>draw\<close> up to that call.\<close>

definition draw_prepare ::
  "env \<Rightarrow> identity option \<Rightarrow> json_file \<Rightarrow> (response + db \<times> draw) option" where
  "draw_prepare e user f =
     (if \<not> isAdmin user then Some (Inl Forbidden403)
      else
        (case loadDB f of
           Inl err \<Rightarrow> Some (Inl (InternalError500 err))
         | Inr d \<Rightarrow>
             (case find (unfilled d) (draws d) of
                Some openDraw \<Rightarrow> Some (Inl BadRequest400)
              | None \<Rightarrow>
                  (case generateTicketNumbers (env_random e) of
                     None \<Rightarrow> None
                   | Some numbers \<Rightarrow>
                       let newDraw = \<lparr>d_id = env_uuid e, d_numbers = numbers, d_date = env_now e\<rparr>;
                           payload = \<lparr>draws = draws d @ [newDraw],
                                      tickets = map (assign (d_id newDraw)) (tickets d)\<rparr>
                       in Some (Inr (payload, newDraw))))))"

definition submit_draw :: "env \<Rightarrow> identity option \<Rightarrow> node \<Rightarrow> node option" where
  "submit_draw e user n =
     (case draw_prepare e user (disk (srv n)) of
        None \<Rightarrow> None
      | Some (Inl r) \<Rightarrow> Some (n\<lparr>replies := replies n @ [r]\<rparr>)
      | Some (Inr (payload, newDraw)) \<Rightarrow>
          Some (n\<lparr>queue := queue n @
                  [\<lparr>j_payload = payload, j_fault = env_fault e,
                    j_reply = Created201_draw newDraw\<rparr>]\<rparr>))"

definition run_write :: "node \<Rightarrow> node" where
  "run_write n =
     (case queue n of
        [] \<Rightarrow> n
      | j # js \<Rightarrow>
          (case writeDBAtomic (j_fault j) (j_payload j) (srv n) of
             (Some err, s') \<Rightarrow>
               n\<lparr>srv := s', queue := js, replies := replies n @ [InternalError500 err]\<rparr>
           | (None, s') \<Rightarrow>
               n\<lparr>srv := s', queue := js, replies := replies n @ [j_reply j]\<rparr>))"

text \<open>A schedule: a purchase or a draw request arrives and runs up to its queued
  write, or the oldest queued write runs.\<close>

datatype event = Submit env "identity option" | SubmitDraw env "identity option" | Write

fun run :: "config \<Rightarrow> event list \<Rightarrow> node \<Rightarrow> node option" where
  "run cfg [] n = Some n"
| "run cfg (Submit e user # evs) n =
     (case submit_buyTicket cfg e user n of None \<Rightarrow> None | Some n' \<Rightarrow> run cfg evs n')"
| "run cfg (SubmitDraw e user # evs) n =
     (case submit_draw e user n of None \<Rightarrow> None | Some n' \<Rightarrow> run cfg evs n')"
| "run cfg (Write # evs) n = run cfg evs (run_write n)"

section \<open>The number generator\<close>

lemma round_half_even_le: "y < of_int M + 1/2 \<Longrightarrow> round_half_even y \<le> M"
proof -
  assume y: "y < of_int M + 1/2"
  have f: "of_int \<lfloor>y\<rfloor> \<le> y" by simp
  show ?thesis
  proof (cases "\<lfloor>y\<rfloor> < M")
    case True
    then show ?thesis by (simp add: round_half_even_def Let_def)
  next
    case False
    then have "of_int M \<le> (of_int \<lfloor>y\<rfloor> :: rat)" by simp
    with y f have "y - of_int \<lfloor>y\<rfloor> < 1/2" by linarith
    moreover have "\<lfloor>y\<rfloor> \<le> M"
    proof -
      have "y < of_int (M + 1)" using y by simp
      then have "\<lfloor>y\<rfloor> < M + 1" by (simp only: floor_less_iff)
      then show ?thesis by simp
    qed
    ultimately show ?thesis by (simp add: round_half_even_def Let_def)
  qed
qed

lemma round_half_even_nonneg: "0 \<le> y \<Longrightarrow> 0 \<le> round_half_even y"
proof -
  assume "0 \<le> y"
  then have "0 \<le> \<lfloor>y\<rfloor>" by simp
  then show ?thesis by (simp add: round_half_even_def Let_def)
qed

lemma up_le: "e \<le> e' \<Longrightarrow> x < 2 powi (e' + 1) \<Longrightarrow> up n e x \<le> e'"
proof (induction n arbitrary: e)
  case 0
  then show ?case by (simp add: up.simps)
next
  case (Suc n)
  show ?case
  proof (cases "x < 2 powi (e + 1)")
    case True
    then show ?thesis using Suc.prems by (simp add: up.simps)
  next
    case False
    have "e < e'"
    proof (rule ccontr)
      assume "\<not> e < e'"
      then have "e' + 1 \<le> e + 1" by simp
      then have "(2::rat) powi (e' + 1) \<le> 2 powi (e + 1)"
        by (intro power_int_increasing) simp_all
      with Suc.prems(2) False show False by simp
    qed
    then have "up n (e + 1) x \<le> e'"
      using Suc.prems(2) by (intro Suc.IH) simp_all
    then show ?thesis using False by (simp add: up.simps [of "Suc n"])
  qed
qed

lemma up_bound:
  "e \<le> e' \<Longrightarrow> e' \<le> e + int n \<Longrightarrow> x < 2 powi (e' + 1) \<Longrightarrow> x < 2 powi (up n e x + 1)"
proof (induction n arbitrary: e)
  case 0
  then have "e' = e" by simp
  then show ?case using "0.prems" by (simp add: up.simps)
next
  case (Suc n)
  show ?case
  proof (cases "x < 2 powi (e + 1)")
    case True
    then show ?thesis by (simp add: up.simps)
  next
    case False
    have "e < e'"
    proof (rule ccontr)
      assume "\<not> e < e'"
      then have "e' + 1 \<le> e + 1" by simp
      then have "(2::rat) powi (e' + 1) \<le> 2 powi (e + 1)"
        by (intro power_int_increasing) simp_all
      with Suc.prems(3) False show False by simp
    qed
    then have "x < 2 powi (up n (e + 1) x + 1)"
      using Suc.prems by (intro Suc.IH) simp_all
    then show ?thesis using False by (simp add: up.simps [of "Suc n"])
  qed
qed

lemma down_props:
  "x < 2 powi (e + 1) \<Longrightarrow> x < 2 powi (down n e x + 1) \<and> down n e x \<le> e"
proof (induction n arbitrary: e)
  case 0
  then show ?case by (simp add: down.simps)
next
  case (Suc n)
  show ?case
  proof (cases "2 powi e \<le> x")
    case True
    then show ?thesis using Suc.prems by (simp add: down.simps)
  next
    case False
    then have "x < 2 powi (e - 1 + 1)" by simp
    from Suc.IH [OF this] show ?thesis
      using False by (simp add: down.simps [of "Suc n"])
  qed
qed

lemma exponent_small:
  assumes "x < 32"
  shows "x < 2 powi (exponent x + 1) \<and> exponent x \<le> 4"
proof (cases "1 \<le> x")
  case True
  have x: "x < 2 powi (4 + 1)" using assms by simp
  have "up 1023 0 x \<le> 4" using x by (intro up_le) simp_all
  moreover have "x < 2 powi (up 1023 0 x + 1)"
    using x by (intro up_bound [of 0 4]) simp_all
  ultimately show ?thesis using True by (simp add: exponent_def)
next
  case False
  then have "x < 2 powi (- 1 + 1)" by simp
  from down_props [OF this, of 1021] show ?thesis
    using False by (simp add: exponent_def)
qed

lemma exponent_32_64:
  assumes "32 \<le> x" and "x < 64"
  shows "exponent x = 5"
proof -
  have x: "x < 2 powi (5 + 1)" using assms by simp
  have le: "up 1023 0 x \<le> 5" using x by (intro up_le) simp_all
  have b: "x < 2 powi (up 1023 0 x + 1)"
    using x by (intro up_bound [of 0 5]) simp_all
  have "5 \<le> up 1023 0 x"
  proof (rule ccontr)
    assume "\<not> 5 \<le> up 1023 0 x"
    then have "up 1023 0 x + 1 \<le> 5" by simp
    then have "(2::rat) powi (up 1023 0 x + 1) \<le> 2 powi 5"
      by (intro power_int_increasing) simp_all
    with b assms(1) show False by simp
  qed
  with le show ?thesis using assms(1) by (simp add: exponent_def)
qed

lemma exponent_half_one:
  assumes "1/2 \<le> x" and "x < 1"
  shows "exponent x = - 1"
  using assms by (simp add: exponent_def down.simps power_int_minus)

lemma nearest_nonneg: "0 \<le> x \<Longrightarrow> 0 \<le> nearest x"
  by (simp add: nearest_def Let_def round_half_even_nonneg)

lemma nearest_small:
  assumes "0 \<le> x" and "x < 32"
  shows "nearest x \<le> 32"
proof -
  define E where "E = exponent x"
  define ulp :: rat where "ulp = 2 powi (E - 52)"
  have E: "x < 2 powi (E + 1)" "E \<le> 4"
    using exponent_small [OF assms(2)] by (simp_all add: E_def)
  have ulp: "0 < ulp" by (simp add: ulp_def)
  have a: "(2::rat) powi (53 + (E - 52)) = 2 powi 53 * 2 powi (E - 52)"
    by (rule power_int_add) simp
  have b: "53 + (E - 52) = E + 1" by simp
  have split: "(2::rat) powi (E + 1) = 2 powi 53 * ulp"
    unfolding ulp_def by (rule a [unfolded b])
  have "x / ulp < 2 powi 53"
    using E(1) ulp unfolding split by (simp add: pos_divide_less_eq)
  then have "x / ulp < of_int (2 ^ 53)" by simp
  then have "x / ulp < of_int (2 ^ 53) + 1/2" by (rule less_le_trans) simp
  then have "round_half_even (x / ulp) \<le> 2 ^ 53" by (rule round_half_even_le)
  then have "(of_int (round_half_even (x / ulp)) :: rat) \<le> of_int (2 ^ 53)"
    by (simp only: of_int_le_iff)
  then have "of_int (round_half_even (x / ulp)) * ulp \<le> 2 powi 53 * ulp"
    using ulp by simp
  also have "\<dots> = 2 powi (E + 1)" by (simp only: split)
  also have "\<dots> \<le> 2 powi 5"
    using E(2) by (intro power_int_increasing) simp_all
  finally show ?thesis
    by (simp add: nearest_def Let_def ulp_def E_def)
qed

lemma nearest_below_49:
  assumes "32 \<le> x" and "x \<le> 49 - 49 / 2 ^ 53"
  shows "nearest x < 49"
proof -
  have x64: "x < 64" using assms(2) by simp
  have E: "exponent x = 5" using assms(1) x64 by (rule exponent_32_64)
  have ulp: "(2::rat) powi (exponent x - 52) = 1 / 2 ^ 47"
    unfolding E by (simp add: power_int_minus_divide)
  have "x * 2 ^ 47 \<le> (49 - 49 / 2 ^ 53) * 2 ^ 47"
    using assms(2) by simp
  also have "\<dots> < of_int (49 * 2 ^ 47 - 1) + 1/2" by simp
  finally have "round_half_even (x * 2 ^ 47) \<le> 49 * 2 ^ 47 - 1"
    by (rule round_half_even_le)
  then have "(of_int (round_half_even (x * 2 ^ 47)) :: rat) \<le> of_int (49 * 2 ^ 47 - 1)"
    by (simp only: of_int_le_iff)
  then have "of_int (round_half_even (x * 2 ^ 47)) / 2 ^ 47 \<le> (of_int (49 * 2 ^ 47 - 1) :: rat) / 2 ^ 47"
    by (simp add: divide_right_mono)
  also have "\<dots> < 49" by simp
  finally show ?thesis
    by (simp add: nearest_def Let_def ulp)
qed

lemma double_below_one:
  assumes "is_double r" and "1/2 \<le> r" and "r < 1"
  shows "r \<le> 1 - 1 / 2 ^ 53"
proof -
  have E: "exponent r = - 1" using assms(2,3) by (rule exponent_half_one)
  have ulp: "(2::rat) powi (exponent r - 52) = 1 / 2 ^ 53"
    unfolding E by (simp add: power_int_minus_divide)
  define k where "k = round_half_even (r * 2 ^ 53)"
  have r: "r = of_int k / 2 ^ 53"
    using assms(1,2) by (simp add: is_double_def round_double_def nearest_def Let_def ulp k_def)
  have "of_int k < (2 ^ 53 :: rat)"
    using assms(3) unfolding r by (simp add: pos_divide_less_eq)
  then have "of_int k < (of_int (2 ^ 53) :: rat)" by simp
  then have "k < 2 ^ 53" by (simp only: of_int_less_iff)
  then have "k \<le> 2 ^ 53 - 1" by simp
  then have "(of_int k :: rat) \<le> of_int (2 ^ 53 - 1)" by (simp only: of_int_le_iff)
  then have "of_int k / 2 ^ 53 \<le> (of_int (2 ^ 53 - 1) :: rat) / 2 ^ 53"
    by (simp add: divide_right_mono)
  also have "\<dots> = 1 - 1 / 2 ^ 53" by simp
  finally show ?thesis unfolding r .
qed

lemma mul_double_49_range:
  assumes "is_double r" and "0 \<le> r" and "r < 1"
  shows "0 \<le> mul_double r 49 \<and> mul_double r 49 < 49"
proof -
  have nn: "0 \<le> r * 49" using assms(2) by simp
  have md: "mul_double r 49 = nearest (r * 49)"
    using nn by (simp add: mul_double_def round_double_def)
  have lo: "0 \<le> nearest (r * 49)" using nn by (rule nearest_nonneg)
  have hi: "nearest (r * 49) < 49"
  proof (cases "r * 49 < 32")
    case True
    with nn have "nearest (r * 49) \<le> 32" by (rule nearest_small)
    then show ?thesis by simp
  next
    case False
    then have big: "32 \<le> r * 49" by simp
    then have "1/2 \<le> r" by simp
    with assms(1) have "r \<le> 1 - 1 / 2 ^ 53" using assms(3) by (rule double_below_one)
    then have "r * 49 \<le> (1 - 1 / 2 ^ 53) * 49" by simp
    then have "r * 49 \<le> 49 - 49 / 2 ^ 53" by simp
    with big show ?thesis by (rule nearest_below_49)
  qed
  show ?thesis using lo hi unfolding md by simp
qed

lemma random_number_range:
  "is_double r \<Longrightarrow> 0 \<le> r \<Longrightarrow> r < 1 \<Longrightarrow> 1 \<le> random_number r \<and> random_number r \<le> 49"
proof -
  assume "is_double r" "0 \<le> r" "r < 1"
  then have m: "0 \<le> mul_double r 49" "mul_double r 49 < 49"
    using mul_double_49_range by simp_all
  have "0 \<le> \<lfloor>mul_double r 49\<rfloor>" using m(1) by simp
  moreover have "\<lfloor>mul_double r 49\<rfloor> < 49" using m(2) by (simp add: floor_less_iff)
  ultimately show ?thesis unfolding random_number_def by simp
qed

lemma floor_rat_numeral: "\<lfloor>numeral a / numeral b :: rat\<rfloor> = numeral a div numeral b"
  by (metis floor_divide_of_int_eq of_int_numeral)

lemmas dbl_defs = random_number_def mul_double_def round_double_def nearest_def exponent_def
  round_half_even_def is_double_def up.simps down.simps Let_def floor_rat_numeral

text \<open>The samples used in the examples below are doubles (multiples of 1/64), and
  the numbers they give.\<close>

lemma double_samples:
  "is_double (1/64)" "is_double (1/32)" "is_double (3/64)" "is_double (1/16)"
  "is_double (3/32)" "is_double (7/64)" "is_double (1/8)" "is_double (5/32)"
  "is_double (11/64)" "is_double (3/16)" "is_double (7/32)" "is_double (15/64)"
  "is_double (63/64)"
  by (simp_all add: dbl_defs)

lemma random_samples:
  "random_number (1/64) = 1" "random_number (1/32) = 2" "random_number (3/64) = 3"
  "random_number (1/16) = 4" "random_number (3/32) = 5" "random_number (7/64) = 6"
  "random_number (1/8) = 7" "random_number (5/32) = 8" "random_number (11/64) = 9"
  "random_number (3/16) = 10" "random_number (7/32) = 11" "random_number (15/64) = 12"
  "random_number (63/64) = 49"
  by (simp_all add: dbl_defs)

text \<open>The product is rounded before the floor is taken: for the double
  0.3877551020408163 the exact product with 49 lies just below 19, the double product
  is 19, and the number is 20. The largest double below 1 gives 49.\<close>

lemma random_number_rounds_product:
  "is_double (1746293733062029 / 4503599627370496)"
  "\<lfloor>(1746293733062029 / 4503599627370496 :: rat) * 49\<rfloor> = 18"
  "random_number (1746293733062029 / 4503599627370496) = 20"
  "random_number (9007199254740991 / 9007199254740992) = 49"
  by (simp_all add: dbl_defs)

lemma set_add_set: "set (set_add numbers n) = insert n (set numbers)"
  by (auto simp: set_add_def)

lemma set_add_distinct: "distinct numbers \<Longrightarrow> distinct (set_add numbers n)"
  by (simp add: set_add_def)

lemma set_add_length: "length numbers < 6 \<Longrightarrow> length (set_add numbers n) \<le> 6"
  by (simp add: set_add_def)

lemma collect_props:
  "collect numbers rs = Some ns \<Longrightarrow> distinct numbers \<Longrightarrow> length numbers \<le> 6 \<Longrightarrow>
   (\<forall>n\<in>set numbers. 1 \<le> n \<and> n \<le> 49) \<Longrightarrow> (\<forall>r\<in>set rs. is_double r \<and> 0 \<le> r \<and> r < 1) \<Longrightarrow>
   length ns = 6 \<and> distinct ns \<and> (\<forall>n\<in>set ns. 1 \<le> n \<and> n \<le> 49)"
proof (induction rs arbitrary: numbers)
  case Nil
  then show ?case by (auto split: if_splits)
next
  case (Cons r rs)
  show ?case
  proof (cases "length numbers < 6")
    case True
    have rr: "1 \<le> random_number r \<and> random_number r \<le> 49"
      using Cons.prems(5) by (simp add: random_number_range)
    have "collect (set_add numbers (random_number r)) rs = Some ns"
      using Cons.prems(1) True by simp
    moreover have "distinct (set_add numbers (random_number r))"
      using Cons.prems(2) by (rule set_add_distinct)
    moreover have "length (set_add numbers (random_number r)) \<le> 6"
      using True by (rule set_add_length)
    moreover have "\<forall>n\<in>set (set_add numbers (random_number r)). 1 \<le> n \<and> n \<le> 49"
      using Cons.prems(4) rr by (simp add: set_add_set)
    moreover have "\<forall>r\<in>set rs. is_double r \<and> 0 \<le> r \<and> r < 1"
      using Cons.prems(5) by simp
    ultimately show ?thesis by (rule Cons.IH)
  next
    case False
    then have "ns = numbers" using Cons.prems(1) by simp
    then show ?thesis using False Cons.prems by simp
  qed
qed

lemma collect_returns:
  "distinct numbers \<Longrightarrow> 6 \<le> card (set numbers \<union> random_number ` set rs) \<Longrightarrow>
   collect numbers rs \<noteq> None"
proof (induction rs arbitrary: numbers)
  case Nil
  then have "6 \<le> length numbers" by (simp add: distinct_card)
  then show ?case by simp
next
  case (Cons r rs)
  show ?case
  proof (cases "length numbers < 6")
    case True
    have "set (set_add numbers (random_number r)) \<union> random_number ` set rs
            = set numbers \<union> random_number ` set (r # rs)"
      by (auto simp: set_add_set)
    then have "6 \<le> card (set (set_add numbers (random_number r)) \<union> random_number ` set rs)"
      using Cons.prems(2) by simp
    with Cons.prems(1) have "collect (set_add numbers (random_number r)) rs \<noteq> None"
      by (intro Cons.IH set_add_distinct)
    then show ?thesis using True by simp
  next
    case False
    then show ?thesis by simp
  qed
qed

lemma generateTicketNumbers_props:
  assumes "generateTicketNumbers rs = Some ns" and "\<forall>r\<in>set rs. is_double r \<and> 0 \<le> r \<and> r < 1"
  shows "length ns = 6 \<and> distinct ns \<and> sorted ns \<and> (\<forall>n\<in>set ns. 1 \<le> n \<and> n \<le> 49)"
proof -
  from assms(1) obtain xs where c: "collect [] rs = Some xs" and ns: "ns = sort xs"
    unfolding generateTicketNumbers_def by auto
  have "length xs = 6 \<and> distinct xs \<and> (\<forall>n\<in>set xs. 1 \<le> n \<and> n \<le> 49)"
    using c assms(2) by (intro collect_props [of "[]" rs xs]) simp_all
  then show ?thesis unfolding ns by simp
qed

lemma generateTicketNumbers_returns:
  "6 \<le> card (random_number ` set rs) \<Longrightarrow> generateTicketNumbers rs \<noteq> None"
  using collect_returns [of "[]" rs] by (simp add: generateTicketNumbers_def)

section \<open>The admin predicate\<close>

lemma endsWith_suffix: "endsWith s suf = suffix suf s"
proof
  assume "endsWith s suf"
  then have "s = take (length s - length suf) s @ suf"
    unfolding endsWith_def by (metis append_take_drop_id)
  then show "suffix suf s" by (rule suffixI)
next
  assume "suffix suf s"
  then obtain xs where "s = xs @ suf" by (rule suffixE)
  then show "endsWith s suf" unfolding endsWith_def by simp
qed

text \<open>
  C7 (as amended). \<open>isAdmin\<close> is true exactly when the identity is present and
  either its role is the admin marker, or it has no role (none, or the empty string) and
  its e-mail is a string ending in "@admin.com". An identity with any other role is not
  an admin whatever its e-mail; an absent identity is not an admin.
\<close>

theorem isAdmin_role_then_email:
  "isAdmin user \<longleftrightarrow>
     (\<exists>u. user = Some u \<and>
        (u_role u = Some ''admin'' \<or>
         (\<not> truthy (u_role u) \<and> (\<exists>e. u_email u = Some e \<and> suffix ''@admin.com'' e))))"
proof (cases user)
  case None
  then show ?thesis by (simp add: isAdmin_def)
next
  case (Some u)
  have adm: "truthy (Some ''admin'')" by (simp add: truthy_def)
  show ?thesis
  proof (cases "truthy (u_role u)")
    case True
    then show ?thesis using Some by (simp add: isAdmin_def)
  next
    case False
    then have "u_role u \<noteq> Some ''admin''" using adm by auto
    then show ?thesis
      using Some False by (auto simp: isAdmin_def endsWith_suffix split: option.splits)
  qed
qed

theorem isAdmin_role_then_email_witness:
  "isAdmin (Some \<lparr>u_id = Some ''u1'', u_role = Some ''admin'', u_email = None\<rparr>) \<and>
   isAdmin (Some \<lparr>u_id = Some ''u2'', u_role = None, u_email = Some ''root@admin.com''\<rparr>) \<and>
   \<not> isAdmin (Some \<lparr>u_id = Some ''u3'', u_role = Some ''user'', u_email = Some ''bob@admin.com''\<rparr>) \<and>
   \<not> isAdmin None"
  using isAdmin_role_then_email
          [of "Some \<lparr>u_id = Some ''u1'', u_role = Some ''admin'', u_email = None\<rparr>"]
        isAdmin_role_then_email
          [of "Some \<lparr>u_id = Some ''u2'', u_role = None, u_email = Some ''root@admin.com''\<rparr>"]
        isAdmin_role_then_email
          [of "Some \<lparr>u_id = Some ''u3'', u_role = Some ''user'', u_email = Some ''bob@admin.com''\<rparr>"]
        isAdmin_role_then_email [of None]
  by (simp add: truthy_def suffix_def)

text \<open>
  An identity with the role "user" and an e-mail in the administrative domain: the role
  test does not give true, so the specification's wording makes it an admin; the code
  returns the outcome of the role test and never looks at the e-mail.
\<close>

theorem isAdmin_fallback_counterexample:
  "isAdmin_spec (Some \<lparr>u_id = Some ''u3'', u_role = Some ''user'', u_email = Some ''bob@admin.com''\<rparr>) \<and>
   \<not> isAdmin (Some \<lparr>u_id = Some ''u3'', u_role = Some ''user'', u_email = Some ''bob@admin.com''\<rparr>)"
  by (simp add: isAdmin_spec_def isAdmin_def truthy_def suffix_def)

section \<open>Match counting and prizes\<close>

lemma countMatches_card:
  "distinct ticketNumbers \<Longrightarrow>
     countMatches ticketNumbers drawNumbers = card (set ticketNumbers \<inter> set drawNumbers)"
proof -
  assume d: "distinct ticketNumbers"
  have "set (filter (\<lambda>n. n \<in> set drawNumbers) ticketNumbers)
          = set ticketNumbers \<inter> set drawNumbers"
    by auto
  moreover have "distinct (filter (\<lambda>n. n \<in> set drawNumbers) ticketNumbers)"
    using d by simp
  ultimately show ?thesis
    unfolding countMatches_def by (metis distinct_card)
qed

lemma countMatches_reorder:
  "mset t' = mset t \<Longrightarrow> mset d' = mset d \<Longrightarrow> countMatches t' d' = countMatches t d"
proof -
  assume t: "mset t' = mset t" and d: "mset d' = mset d"
  have sd: "set d' = set d"
    using d by (rule mset_eq_setD)
  have "mset (filter (\<lambda>n. n \<in> set d) t') = mset (filter (\<lambda>n. n \<in> set d) t)"
    using t by (simp only: mset_filter)
  then have "length (filter (\<lambda>n. n \<in> set d) t') = length (filter (\<lambda>n. n \<in> set d) t)"
    by (rule mset_eq_length)
  then show ?thesis
    unfolding countMatches_def sd .
qed

text \<open>
  C6 (as amended). For number sets (the ticket's numbers pairwise distinct),
  \<open>countMatches\<close> is the cardinality of the intersection of the two sets, and it does
  not change when either argument is reordered. The prize label depends on the match
  count alone: 6 gives "Jackpot!", 5 "Big prize", 4 "Small prize", anything else
  "No prize".
\<close>

theorem countMatches_prize_table:
  "(distinct t \<longrightarrow> countMatches t d = card (set t \<inter> set d)) \<and>
   (mset t' = mset t \<and> mset d' = mset d \<longrightarrow> countMatches t' d' = countMatches t d) \<and>
   prizeFromMatches m =
     (if m = 6 then ''Jackpot!'' else if m = 5 then ''Big prize''
      else if m = 4 then ''Small prize'' else ''No prize'')"
  using countMatches_card [of t d] countMatches_reorder [of t' t d' d]
  by (simp add: prizeFromMatches_def)

theorem countMatches_prize_table_witness:
  "distinct [3, 12, 19, 27, 41, 49 :: int] \<and>
   countMatches [3, 12, 19, 27, 41, 49] [3, 8, 19, 27, 33, 44] = 3 \<and>
   countMatches [49, 41, 27, 19, 12, 3] [44, 33, 27, 19, 8, 3]
     = countMatches [3, 12, 19, 27, 41, 49] [3, 8, 19, 27, 33, 44] \<and>
   prizeFromMatches 6 = ''Jackpot!'' \<and> prizeFromMatches 3 = ''No prize''"
  using countMatches_prize_table
    [of "[3, 12, 19, 27, 41, 49]" "[3, 8, 19, 27, 33, 44]"
        "[49, 41, 27, 19, 12, 3]" "[44, 33, 27, 19, 8, 3]" 6]
    countMatches_prize_table [of "[]" "[]" "[]" "[]" 3]
  by (simp add: countMatches_def)

text \<open>
  The label for six matches carries an exclamation mark; the table of the specification
  names it without one.
\<close>

theorem prize_jackpot_label_counterexample:
  "prizeFromMatches 6 \<noteq> ''Jackpot''"
  by (simp add: prizeFromMatches_def)

section \<open>Loading and writing the ledger\<close>

lemmas handler_defs =
  buyTicket_def buyTicket_prepare_def draw_def loadDB_def readJSON_def readFile_parse_def
  err_code_def writeDBAtomic_def writeJSON_def generateTicketNumbers_def random_samples
  set_add_def userId_of_def truthy_def isAdmin_def unfilled_def assign_def Let_def empty_db_def

lemma loadDB_total: "\<exists>d. loadDB f = Inr d"
  by (simp add: loadDB_def split: sum.splits)

lemma loadDB_ledger: "loadDB (Json (JLedger d)) = Inr d"
  by (simp add: loadDB_def readJSON_def readFile_parse_def)

lemma writeDBAtomic_ok:
  "pendingWrite s = Fulfilled \<Longrightarrow>
   writeDBAtomic None payload s =
     (None, s\<lparr>disk := Json (JLedger payload), pendingWrite := Fulfilled, commits := commits s + 1\<rparr>)"
  by (simp add: writeDBAtomic_def writeJSON_def)


text \<open>
  C8. A load of the ledger should let an I/O failure other than a missing file reach the
  operation's caller. \<open>readJSON\<close> does throw it again, but the \<open>catch\<close> of \<open>loadDB\<close>
  takes it and returns the empty document: with the file unreadable (\<open>EACCES\<close>),
  \<open>buyTicket\<close> answers 201 and writes a ledger that holds the new ticket alone.
\<close>

theorem loadDB_hides_read_failure:
  "readJSON (ReadFails EACCES) = Inl (SystemError EACCES) \<and>
   loadDB (ReadFails EACCES) = Inr empty_db \<and>
   buyTicket (config_of_env None None)
      \<lparr>env_uuid = ''t9'', env_now = ''2024-01-05'',
       env_random = [1/64, 1/32, 3/64, 1/16, 3/32, 7/64], env_fault = None\<rparr>
      (Some \<lparr>u_id = Some ''alice'', u_role = None, u_email = None\<rparr>)
      \<lparr>disk = ReadFails EACCES, pendingWrite = Fulfilled, commits = 0\<rparr>
    = Some (Created201_ticket
              \<lparr>t_id = ''t9'', t_userId = ''alice'', t_numbers = [1, 2, 3, 4, 5, 6],
               t_drawId = None, t_purchasedAt = ''2024-01-05''\<rparr>,
            \<lparr>disk = Json (JLedger \<lparr>draws = [], tickets =
                 [\<lparr>t_id = ''t9'', t_userId = ''alice'', t_numbers = [1, 2, 3, 4, 5, 6],
                   t_drawId = None, t_purchasedAt = ''2024-01-05''\<rparr>]\<rparr>),
             pendingWrite = Fulfilled, commits = 1\<rparr>)"
  by (simp add: handler_defs config_of_env_def env_limit_def)

text \<open>Once \<open>pendingWrite\<close> is rejected, no later write is attempted, whatever the
  file system would answer.\<close>

lemma writeDBAtomic_after_rejection:
  "pendingWrite s = Rejected err \<Longrightarrow> writeDBAtomic fault payload s = (Some err, s)"
  by (simp add: writeDBAtomic_def)

text \<open>
  C2. A write queued after a write that failed should still run. Here the first write
  (a ledger with ticket t1) is refused with \<open>EIO\<close>; the file system would accept the
  second (a ledger with ticket t2), but \<open>pendingWrite\<close> is rejected, so the second write
  is not attempted: its caller gets the first write's error, the file is still the empty
  ledger and no write is counted.
\<close>

theorem writeDBAtomic_rejection_sticks:
  "writeDBAtomic (Some EIO)
       \<lparr>draws = [], tickets =
          [\<lparr>t_id = ''t1'', t_userId = ''alice'', t_numbers = [1, 2, 3, 4, 5, 6],
            t_drawId = None, t_purchasedAt = ''2024-01-01''\<rparr>]\<rparr>
       \<lparr>disk = Json (JLedger \<lparr>draws = [], tickets = []\<rparr>),
        pendingWrite = Fulfilled, commits = 0\<rparr>
     = (Some (SystemError EIO),
        \<lparr>disk = Json (JLedger \<lparr>draws = [], tickets = []\<rparr>),
         pendingWrite = Rejected (SystemError EIO), commits = 0\<rparr>) \<and>
   writeDBAtomic None
       \<lparr>draws = [], tickets =
          [\<lparr>t_id = ''t2'', t_userId = ''bob'', t_numbers = [7, 8, 9, 10, 11, 12],
            t_drawId = None, t_purchasedAt = ''2024-01-02''\<rparr>]\<rparr>
       \<lparr>disk = Json (JLedger \<lparr>draws = [], tickets = []\<rparr>),
        pendingWrite = Rejected (SystemError EIO), commits = 0\<rparr>
     = (Some (SystemError EIO),
        \<lparr>disk = Json (JLedger \<lparr>draws = [], tickets = []\<rparr>),
         pendingWrite = Rejected (SystemError EIO), commits = 0\<rparr>)"
  by (simp add: writeDBAtomic_def writeJSON_def)

section \<open>Running a draw\<close>

text \<open>
  C3. For an admin caller, when some draw of the loaded ledger has no ticket whose
  \<open>drawId\<close> is its id, \<open>draw\<close> answers 400 and the state (file, write chain, writes
  counted) is the one before: no draw is created, no ticket modified, nothing written.
  The answer does not depend on the identifier, clock or random samples, which are
  used only after this check.
\<close>

theorem draw_conflict:
  assumes "isAdmin user" and "loadDB (disk s) = Inr d"
    and "dr \<in> set (draws d)" and "\<forall>t\<in>set (tickets d). t_drawId t \<noteq> Some (d_id dr)"
  shows "draw e user s = Some (BadRequest400, s)"
proof -
  have "unfilled d dr"
    using assms(4) by (simp add: unfilled_def list_ex_iff)
  with assms(3) have "find (unfilled d) (draws d) \<noteq> None"
    by (auto simp: find_None_iff)
  then show ?thesis
    using assms(1,2) by (auto simp: draw_def)
qed

theorem draw_conflict_witness:
  "isAdmin (Some \<lparr>u_id = Some ''root'', u_role = Some ''admin'', u_email = None\<rparr>) \<and>
   draw \<lparr>env_uuid = ''d2'', env_now = ''2024-01-02'', env_random = [], env_fault = None\<rparr>
        (Some \<lparr>u_id = Some ''root'', u_role = Some ''admin'', u_email = None\<rparr>)
        \<lparr>disk = Json (JLedger \<lparr>draws = [\<lparr>d_id = ''d1'', d_numbers = [1, 2, 3, 4, 5, 6],
                                                d_date = ''2024-01-01''\<rparr>],
                                      tickets = []\<rparr>),
         pendingWrite = Fulfilled, commits = 1\<rparr>
     = Some (BadRequest400,
        \<lparr>disk = Json (JLedger \<lparr>draws = [\<lparr>d_id = ''d1'', d_numbers = [1, 2, 3, 4, 5, 6],
                                                d_date = ''2024-01-01''\<rparr>],
                                      tickets = []\<rparr>),
         pendingWrite = Fulfilled, commits = 1\<rparr>)"
proof -
  let ?d = "\<lparr>draws = [\<lparr>d_id = ''d1'', d_numbers = [1, 2, 3, 4, 5, 6], d_date = ''2024-01-01''\<rparr>],
            tickets = []\<rparr>"
  let ?s = "\<lparr>disk = Json (JLedger ?d), pendingWrite = Fulfilled, commits = 1\<rparr>"
  let ?u = "Some \<lparr>u_id = Some ''root'', u_role = Some ''admin'', u_email = None\<rparr>"
  have a: "isAdmin ?u" by (simp add: isAdmin_def truthy_def)
  have l: "loadDB (disk ?s) = Inr ?d" by (simp add: loadDB_ledger)
  have m: "\<lparr>d_id = ''d1'', d_numbers = [1, 2, 3, 4, 5, 6], d_date = ''2024-01-01''\<rparr> \<in> set (draws ?d)"
    by simp
  have n: "\<forall>t\<in>set (tickets ?d).
             t_drawId t \<noteq> Some (d_id \<lparr>d_id = ''d1'', d_numbers = [1, 2, 3, 4, 5, 6], d_date = ''2024-01-01''\<rparr>)"
    by simp
  show ?thesis
    using a draw_conflict [OF a l m n] by simp
qed

lemma draw_Created:
  assumes "draw e user s = Some (Created201_draw newDraw, s')" and "loadDB (disk s) = Inr d"
  shows "\<exists>numbers. generateTicketNumbers (env_random e) = Some numbers \<and>
           newDraw = \<lparr>d_id = env_uuid e, d_numbers = numbers, d_date = env_now e\<rparr> \<and>
           find (unfilled d) (draws d) = None \<and> isAdmin user \<and>
           writeDBAtomic (env_fault e)
              \<lparr>draws = draws d @ [newDraw], tickets = map (assign (env_uuid e)) (tickets d)\<rparr> s
             = (None, s')"
  using assms
  by (auto simp: draw_def Let_def split: if_splits option.splits prod.splits)

lemma writeDBAtomic_None:
  "writeDBAtomic fault payload s = (None, s') \<Longrightarrow>
   disk s' = Json (JLedger payload) \<and> commits s' = commits s + 1 \<and> pendingWrite s' = Fulfilled"
  by (auto simp: writeDBAtomic_def writeJSON_def split: promise.splits option.splits)

text \<open>
  C4. When \<open>draw\<close> answers 201 with the new draw, the file holds the loaded ledger with
  the new draw appended to \<open>draws\<close> and with the tickets in the same order, where each
  ticket whose \<open>drawId\<close> was null now carries the new draw's id and is otherwise the
  same, and each ticket that was assigned is the same in every field; all of it is
  written by one write.
\<close>

theorem draw_assigns_pending:
  assumes "draw e user s = Some (Created201_draw newDraw, s')" and "loadDB (disk s) = Inr d"
  shows "\<exists>ts. disk s' = Json (JLedger \<lparr>draws = draws d @ [newDraw], tickets = ts\<rparr>) \<and>
           length ts = length (tickets d) \<and>
           (\<forall>i<length ts.
              (t_drawId (tickets d ! i) = None \<longrightarrow>
                 ts ! i = (tickets d ! i)\<lparr>t_drawId := Some (d_id newDraw)\<rparr>) \<and>
              (t_drawId (tickets d ! i) \<noteq> None \<longrightarrow> ts ! i = tickets d ! i)) \<and>
           commits s' = commits s + 1"
proof -
  from draw_Created [OF assms] obtain numbers where
    nd: "newDraw = \<lparr>d_id = env_uuid e, d_numbers = numbers, d_date = env_now e\<rparr>" and
    w: "writeDBAtomic (env_fault e)
          \<lparr>draws = draws d @ [newDraw], tickets = map (assign (env_uuid e)) (tickets d)\<rparr> s
        = (None, s')"
    by blast
  let ?ts = "map (assign (env_uuid e)) (tickets d)"
  have id: "d_id newDraw = env_uuid e" using nd by simp
  have "disk s' = Json (JLedger \<lparr>draws = draws d @ [newDraw], tickets = ?ts\<rparr>)"
    and "commits s' = commits s + 1"
    using writeDBAtomic_None [OF w] by simp_all
  moreover have "length ?ts = length (tickets d)" by simp
  moreover have "\<forall>i<length ?ts.
              (t_drawId (tickets d ! i) = None \<longrightarrow>
                 ?ts ! i = (tickets d ! i)\<lparr>t_drawId := Some (d_id newDraw)\<rparr>) \<and>
              (t_drawId (tickets d ! i) \<noteq> None \<longrightarrow> ?ts ! i = tickets d ! i)"
    by (simp add: assign_def id)
  ultimately show ?thesis by blast
qed

theorem draw_assigns_pending_witness:
  "\<exists>ts s'.
     draw \<lparr>env_uuid = ''d2'', env_now = ''2024-01-03'',
            env_random = [1/64, 1/32, 3/64, 1/16, 3/32, 7/64], env_fault = None\<rparr>
          (Some \<lparr>u_id = Some ''root'', u_role = Some ''admin'', u_email = None\<rparr>)
          \<lparr>disk = Json (JLedger
             \<lparr>draws = [\<lparr>d_id = ''d1'', d_numbers = [1, 2, 3, 4, 5, 6], d_date = ''2024-01-01''\<rparr>],
              tickets =
                [\<lparr>t_id = ''t1'', t_userId = ''alice'', t_numbers = [7, 8, 9, 10, 11, 12],
                  t_drawId = Some ''d1'', t_purchasedAt = ''2023-12-31''\<rparr>,
                 \<lparr>t_id = ''t2'', t_userId = ''bob'', t_numbers = [1, 8, 9, 10, 11, 12],
                  t_drawId = None, t_purchasedAt = ''2024-01-02''\<rparr>]\<rparr>),
            pendingWrite = Fulfilled, commits = 3\<rparr>
       = Some (Created201_draw
                 \<lparr>d_id = ''d2'', d_numbers = [1, 2, 3, 4, 5, 6], d_date = ''2024-01-03''\<rparr>, s') \<and>
     disk s' = Json (JLedger
        \<lparr>draws = [\<lparr>d_id = ''d1'', d_numbers = [1, 2, 3, 4, 5, 6], d_date = ''2024-01-01''\<rparr>,
                  \<lparr>d_id = ''d2'', d_numbers = [1, 2, 3, 4, 5, 6], d_date = ''2024-01-03''\<rparr>],
         tickets = ts\<rparr>) \<and>
     length ts = 2 \<and>
     ts ! 0 = \<lparr>t_id = ''t1'', t_userId = ''alice'', t_numbers = [7, 8, 9, 10, 11, 12],
               t_drawId = Some ''d1'', t_purchasedAt = ''2023-12-31''\<rparr> \<and>
     ts ! 1 = \<lparr>t_id = ''t2'', t_userId = ''bob'', t_numbers = [1, 8, 9, 10, 11, 12],
               t_drawId = Some ''d2'', t_purchasedAt = ''2024-01-02''\<rparr> \<and>
     commits s' = 4"
proof -
  let ?e = "\<lparr>env_uuid = ''d2'', env_now = ''2024-01-03'',
             env_random = [1/64, 1/32, 3/64, 1/16, 3/32, 7/64], env_fault = None\<rparr>"
  let ?u = "Some \<lparr>u_id = Some ''root'', u_role = Some ''admin'', u_email = None\<rparr>"
  let ?d = "\<lparr>draws = [\<lparr>d_id = ''d1'', d_numbers = [1, 2, 3, 4, 5, 6], d_date = ''2024-01-01''\<rparr>],
              tickets =
                [\<lparr>t_id = ''t1'', t_userId = ''alice'', t_numbers = [7, 8, 9, 10, 11, 12],
                  t_drawId = Some ''d1'', t_purchasedAt = ''2023-12-31''\<rparr>,
                 \<lparr>t_id = ''t2'', t_userId = ''bob'', t_numbers = [1, 8, 9, 10, 11, 12],
                  t_drawId = None, t_purchasedAt = ''2024-01-02''\<rparr>]\<rparr>"
  let ?s = "\<lparr>disk = Json (JLedger ?d), pendingWrite = Fulfilled, commits = 3\<rparr>"
  let ?nd = "\<lparr>d_id = ''d2'', d_numbers = [1, 2, 3, 4, 5, 6], d_date = ''2024-01-03''\<rparr>"
  obtain s' where run: "draw ?e ?u ?s = Some (Created201_draw ?nd, s')"
    by (simp add: handler_defs)
  have ld: "loadDB (disk ?s) = Inr ?d"
    by (simp add: loadDB_ledger)
  from draw_assigns_pending [OF run ld] obtain ts where
    ts: "disk s' = Json (JLedger \<lparr>draws = draws ?d @ [?nd], tickets = ts\<rparr>)"
      "length ts = length (tickets ?d)"
      "\<forall>i<length ts.
          (t_drawId (tickets ?d ! i) = None \<longrightarrow>
             ts ! i = (tickets ?d ! i)\<lparr>t_drawId := Some (d_id ?nd)\<rparr>) \<and>
          (t_drawId (tickets ?d ! i) \<noteq> None \<longrightarrow> ts ! i = tickets ?d ! i)"
      "commits s' = commits ?s + 1"
    by blast
  have len: "length ts = 2" using ts(2) by simp
  have "ts ! 0 = tickets ?d ! 0" using ts(3) len by simp
  moreover have "ts ! 1 = (tickets ?d ! 1)\<lparr>t_drawId := Some (d_id ?nd)\<rparr>"
    using ts(3) len by simp
  ultimately show ?thesis
    using run ts(1,4) len by auto
qed


section \<open>Buying a ticket\<close>

text \<open>
  C5. For an authenticated caller: when the pending tickets of the loaded ledger number
  at least the global maximum, or the caller's own pending tickets at least the
  per-user maximum, \<open>buyTicket\<close> answers 429 and the state is the one before. When both
  counts are below their maxima (the generator comes back, the write chain has not
  failed and the file system accepts the write) it answers 201 with a ticket of the
  caller whose \<open>drawId\<close> is null, and the file holds the loaded ledger with exactly this
  ticket appended, written by one write.
\<close>

theorem buyTicket_caps:
  assumes "userId_of user = Some userId" and "userId \<noteq> []" and "loadDB (disk s) = Inr d"
  shows "(int (length (filter (\<lambda>t. t_drawId t = None) (tickets d))) \<ge> MAX_TICKETS_PER_DRAW cfg \<or>
          int (length (filter (\<lambda>t. t_drawId t = None \<and> t_userId t = userId) (tickets d)))
             \<ge> MAX_TICKETS_PER_USER cfg
          \<longrightarrow> (\<exists>c. buyTicket cfg e user s = Some (TooManyRequests429 c, s))) \<and>
         (int (length (filter (\<lambda>t. t_drawId t = None) (tickets d))) < MAX_TICKETS_PER_DRAW cfg \<and>
          int (length (filter (\<lambda>t. t_drawId t = None \<and> t_userId t = userId) (tickets d)))
             < MAX_TICKETS_PER_USER cfg \<and>
          6 \<le> card (random_number ` set (env_random e)) \<and>
          env_fault e = None \<and> pendingWrite s = Fulfilled
          \<longrightarrow> (\<exists>t s'. buyTicket cfg e user s = Some (Created201_ticket t, s') \<and>
                  t_userId t = userId \<and> t_drawId t = None \<and>
                  disk s' = Json (JLedger (d\<lparr>tickets := tickets d @ [t]\<rparr>)) \<and>
                  commits s' = commits s + 1))"
proof -
  have tr: "truthy (userId_of user)" "the (userId_of user) = userId"
    using assms(1,2) by (simp_all add: truthy_def)
  have reject: "\<exists>c. buyTicket cfg e user s = Some (TooManyRequests429 c, s)"
    if "int (length (filter (\<lambda>t. t_drawId t = None) (tickets d))) \<ge> MAX_TICKETS_PER_DRAW cfg \<or>
        int (length (filter (\<lambda>t. t_drawId t = None \<and> t_userId t = userId) (tickets d)))
           \<ge> MAX_TICKETS_PER_USER cfg"
    using that tr assms(3)
    by (auto simp: buyTicket_def buyTicket_prepare_def Let_def)
  have accept: "\<exists>t s'. buyTicket cfg e user s = Some (Created201_ticket t, s') \<and>
                  t_userId t = userId \<and> t_drawId t = None \<and>
                  disk s' = Json (JLedger (d\<lparr>tickets := tickets d @ [t]\<rparr>)) \<and>
                  commits s' = commits s + 1"
    if lim: "int (length (filter (\<lambda>t. t_drawId t = None) (tickets d))) < MAX_TICKETS_PER_DRAW cfg"
        "int (length (filter (\<lambda>t. t_drawId t = None \<and> t_userId t = userId) (tickets d)))
             < MAX_TICKETS_PER_USER cfg"
      and rnd: "6 \<le> card (random_number ` set (env_random e))"
      and io: "env_fault e = None" "pendingWrite s = Fulfilled"
  proof -
    from generateTicketNumbers_returns [OF rnd] obtain numbers where
      g: "generateTicketNumbers (env_random e) = Some numbers" by blast
    define t where "t = \<lparr>t_id = env_uuid e, t_userId = userId, t_numbers = numbers,
                         t_drawId = None, t_purchasedAt = env_now e\<rparr>"
    have prep: "buyTicket_prepare cfg e user (disk s)
                  = Some (Inr (d\<lparr>tickets := tickets d @ [t]\<rparr>, t))"
      using tr assms(3) lim g
      by (simp add: buyTicket_prepare_def Let_def t_def)
    have "buyTicket cfg e user s =
            Some (Created201_ticket t,
                  s\<lparr>disk := Json (JLedger (d\<lparr>tickets := tickets d @ [t]\<rparr>)),
                    pendingWrite := Fulfilled, commits := commits s + 1\<rparr>)"
      using prep io by (simp add: buyTicket_def writeDBAtomic_ok)
    then show ?thesis by (simp add: t_def)
  qed
  show ?thesis using reject accept by blast
qed

theorem buyTicket_caps_witness:
  "buyTicket \<lparr>MAX_TICKETS_PER_DRAW = 2, MAX_TICKETS_PER_USER = 1\<rparr>
      \<lparr>env_uuid = ''t2'', env_now = ''2024-01-02'',
       env_random = [1/64, 1/32, 3/64, 1/16, 3/32, 7/64], env_fault = None\<rparr>
      (Some \<lparr>u_id = Some ''alice'', u_role = None, u_email = None\<rparr>)
      \<lparr>disk = Json (JLedger \<lparr>draws = [], tickets =
          [\<lparr>t_id = ''t1'', t_userId = ''alice'', t_numbers = [7, 8, 9, 10, 11, 12],
            t_drawId = None, t_purchasedAt = ''2024-01-01''\<rparr>]\<rparr>),
        pendingWrite = Fulfilled, commits = 1\<rparr>
     = Some (TooManyRequests429 UserCap,
      \<lparr>disk = Json (JLedger \<lparr>draws = [], tickets =
          [\<lparr>t_id = ''t1'', t_userId = ''alice'', t_numbers = [7, 8, 9, 10, 11, 12],
            t_drawId = None, t_purchasedAt = ''2024-01-01''\<rparr>]\<rparr>),
        pendingWrite = Fulfilled, commits = 1\<rparr>) \<and>
   (\<exists>t s'.
      buyTicket \<lparr>MAX_TICKETS_PER_DRAW = 2, MAX_TICKETS_PER_USER = 1\<rparr>
        \<lparr>env_uuid = ''t2'', env_now = ''2024-01-02'',
         env_random = [1/64, 1/32, 3/64, 1/16, 3/32, 7/64], env_fault = None\<rparr>
        (Some \<lparr>u_id = Some ''bob'', u_role = None, u_email = None\<rparr>)
        \<lparr>disk = Json (JLedger \<lparr>draws = [], tickets =
            [\<lparr>t_id = ''t1'', t_userId = ''alice'', t_numbers = [7, 8, 9, 10, 11, 12],
              t_drawId = None, t_purchasedAt = ''2024-01-01''\<rparr>]\<rparr>),
          pendingWrite = Fulfilled, commits = 1\<rparr>
       = Some (Created201_ticket t, s') \<and>
      t_userId t = ''bob'' \<and> t_drawId t = None \<and>
      disk s' = Json (JLedger \<lparr>draws = [], tickets =
            [\<lparr>t_id = ''t1'', t_userId = ''alice'', t_numbers = [7, 8, 9, 10, 11, 12],
              t_drawId = None, t_purchasedAt = ''2024-01-01''\<rparr>, t]\<rparr>) \<and>
      commits s' = 2)"
proof -
  let ?cfg = "\<lparr>MAX_TICKETS_PER_DRAW = 2, MAX_TICKETS_PER_USER = 1\<rparr>"
  let ?e = "\<lparr>env_uuid = ''t2'', env_now = ''2024-01-02'',
             env_random = [1/64, 1/32, 3/64, 1/16, 3/32, 7/64], env_fault = None\<rparr>"
  let ?alice = "Some \<lparr>u_id = Some ''alice'', u_role = None, u_email = None\<rparr>"
  let ?bob = "Some \<lparr>u_id = Some ''bob'', u_role = None, u_email = None\<rparr>"
  let ?d = "\<lparr>draws = [], tickets =
          [\<lparr>t_id = ''t1'', t_userId = ''alice'', t_numbers = [7, 8, 9, 10, 11, 12],
            t_drawId = None, t_purchasedAt = ''2024-01-01''\<rparr>]\<rparr>"
  let ?s = "\<lparr>disk = Json (JLedger ?d), pendingWrite = Fulfilled, commits = 1\<rparr>"
  have ld: "loadDB (disk ?s) = Inr ?d"
    by (simp add: loadDB_ledger)
  have ua: "userId_of ?alice = Some ''alice''" and ub: "userId_of ?bob = Some ''bob''"
    by (simp_all add: userId_of_def)
  have rnd: "6 \<le> card (random_number ` set (env_random ?e))"
    by (simp add: random_samples)
  have full: "\<exists>c. buyTicket ?cfg ?e ?alice ?s = Some (TooManyRequests429 c, ?s)"
    using buyTicket_caps [OF ua _ ld, of ?cfg ?e] by simp
  have room: "\<exists>t s'. buyTicket ?cfg ?e ?bob ?s = Some (Created201_ticket t, s') \<and>
                  t_userId t = ''bob'' \<and> t_drawId t = None \<and>
                  disk s' = Json (JLedger (?d\<lparr>tickets := tickets ?d @ [t]\<rparr>)) \<and>
                  commits s' = commits ?s + 1"
    using buyTicket_caps [OF ub _ ld, of ?cfg ?e] rnd by simp
  have which: "buyTicket ?cfg ?e ?alice ?s = Some (TooManyRequests429 UserCap, ?s)"
    using full by (simp add: handler_defs)
  show ?thesis
    using which room by (simp add: numeral_2_eq_2)
qed

section \<open>The numbers of tickets and draws\<close>

lemma buyTicket_Created:
  assumes "buyTicket cfg e user s = Some (Created201_ticket t, s')"
  shows "generateTicketNumbers (env_random e) = Some (t_numbers t)"
  using assms
  by (auto simp: buyTicket_def buyTicket_prepare_def Let_def
           split: if_splits option.splits sum.splits prod.splits)

text \<open>
  C9. With every sample of \<^verbatim>\<open>Math.random()\<close> a double in [0,1), and the product
  with 49 taken in double arithmetic: a list the generator returns has exactly 6
  entries, pairwise distinct, each between 1 and 49, in ascending order.
  The numbers of a ticket \<open>buyTicket\<close> issues and the numbers of a draw \<open>draw\<close>
  creates are what this generator returns.
\<close>

theorem generated_numbers:
  assumes "\<forall>r\<in>set (env_random e). is_double r \<and> 0 \<le> r \<and> r < 1"
  shows "(generateTicketNumbers (env_random e) = Some ns \<longrightarrow>
            length ns = 6 \<and> distinct ns \<and> sorted ns \<and> (\<forall>n\<in>set ns. 1 \<le> n \<and> n \<le> 49)) \<and>
         (buyTicket cfg e user s = Some (Created201_ticket t, s') \<longrightarrow>
            generateTicketNumbers (env_random e) = Some (t_numbers t)) \<and>
         (draw e user s = Some (Created201_draw dr, s') \<longrightarrow>
            generateTicketNumbers (env_random e) = Some (d_numbers dr))"
proof -
  have "generateTicketNumbers (env_random e) = Some (d_numbers dr)"
    if "draw e user s = Some (Created201_draw dr, s')"
  proof -
    obtain d where "loadDB (disk s) = Inr d" using loadDB_total by blast
    from draw_Created [OF that this] show ?thesis by auto
  qed
  then show ?thesis
    using generateTicketNumbers_props [OF _ assms, of ns] buyTicket_Created [of cfg e user s t s']
    by blast
qed

theorem generated_numbers_witness:
  "generateTicketNumbers [1/64, 1/32, 1/32, 63/64, 3/64, 5/32, 15/64, 7/64] = Some [1, 2, 3, 8, 12, 49] \<and>
   length [1, 2, 3, 8, 12, 49 :: int] = 6 \<and> distinct [1, 2, 3, 8, 12, 49 :: int] \<and>
   sorted [1, 2, 3, 8, 12, 49 :: int]"
proof -
  let ?e = "\<lparr>env_uuid = ''t1'', env_now = ''2024-01-01'',
             env_random = [1/64, 1/32, 1/32, 63/64, 3/64, 5/32, 15/64, 7/64], env_fault = None\<rparr>"
  have r: "\<forall>r\<in>set (env_random ?e). is_double r \<and> 0 \<le> r \<and> r < 1"
    by (simp add: double_samples)
  have g: "generateTicketNumbers (env_random ?e) = Some [1, 2, 3, 8, 12, 49]"
    by (simp add: generateTicketNumbers_def random_samples set_add_def)
  show ?thesis
    using g generated_numbers [OF r, of "[1, 2, 3, 8, 12, 49]"] by simp
qed

section \<open>A draw without tickets\<close>






section \<open>Two purchases in flight together\<close>

text \<open>Handled alone, \<open>buyTicket\<close> is its submission followed by its write.\<close>

lemma buyTicket_is_submit_then_write:
  "buyTicket cfg e user s =
     map_option (\<lambda>n. (last (replies n), srv n))
       (run cfg [Submit e user, Write] \<lparr>srv = s, queue = [], replies = []\<rparr>)"
  by (auto simp: buyTicket_def submit_buyTicket_def run_write_def
           split: option.splits sum.splits prod.splits)

text \<open>One purchase after the other: the ledger holds both tickets.\<close>

lemma one_at_a_time_keeps_both:
  "run (config_of_env None None)
      [Submit \<lparr>env_uuid = ''t1'', env_now = ''2024-01-01'',
                env_random = [1/64, 1/32, 3/64, 1/16, 3/32, 7/64], env_fault = None\<rparr>
              (Some \<lparr>u_id = Some ''alice'', u_role = None, u_email = None\<rparr>),
       Write,
       Submit \<lparr>env_uuid = ''t2'', env_now = ''2024-01-01'',
                env_random = [1/8, 5/32, 11/64, 3/16, 7/32, 15/64], env_fault = None\<rparr>
              (Some \<lparr>u_id = Some ''bob'', u_role = None, u_email = None\<rparr>),
       Write]
      \<lparr>srv = \<lparr>disk = Json (JLedger \<lparr>draws = [], tickets = []\<rparr>),
               pendingWrite = Fulfilled, commits = 0\<rparr>,
       queue = [], replies = []\<rparr>
   = Some
      \<lparr>srv = \<lparr>disk = Json (JLedger \<lparr>draws = [], tickets =
                 [\<lparr>t_id = ''t1'', t_userId = ''alice'', t_numbers = [1, 2, 3, 4, 5, 6],
                   t_drawId = None, t_purchasedAt = ''2024-01-01''\<rparr>,
                  \<lparr>t_id = ''t2'', t_userId = ''bob'', t_numbers = [7, 8, 9, 10, 11, 12],
                   t_drawId = None, t_purchasedAt = ''2024-01-01''\<rparr>]\<rparr>),
               pendingWrite = Fulfilled, commits = 2\<rparr>,
       queue = [],
       replies =
         [Created201_ticket \<lparr>t_id = ''t1'', t_userId = ''alice'', t_numbers = [1, 2, 3, 4, 5, 6],
                             t_drawId = None, t_purchasedAt = ''2024-01-01''\<rparr>,
          Created201_ticket \<lparr>t_id = ''t2'', t_userId = ''bob'', t_numbers = [7, 8, 9, 10, 11, 12],
                             t_drawId = None, t_purchasedAt = ''2024-01-01''\<rparr>]\<rparr>"
  by (simp add: submit_buyTicket_def run_write_def handler_defs config_of_env_def env_limit_def)

text \<open>
  C1. Purchases submitted together should each add a ticket to the persisted ledger.
  Here both requests read the empty ledger before either write runs. The writes run in
  order, each writes the ledger its request had read plus its own ticket, and the second
  replaces the first: both callers are answered 201, the file holds one ticket.
\<close>

theorem concurrent_buyTicket_lost_update:
  "run (config_of_env None None)
      [Submit \<lparr>env_uuid = ''t1'', env_now = ''2024-01-01'',
                env_random = [1/64, 1/32, 3/64, 1/16, 3/32, 7/64], env_fault = None\<rparr>
              (Some \<lparr>u_id = Some ''alice'', u_role = None, u_email = None\<rparr>),
       Submit \<lparr>env_uuid = ''t2'', env_now = ''2024-01-01'',
                env_random = [1/8, 5/32, 11/64, 3/16, 7/32, 15/64], env_fault = None\<rparr>
              (Some \<lparr>u_id = Some ''bob'', u_role = None, u_email = None\<rparr>),
       Write, Write]
      \<lparr>srv = \<lparr>disk = Json (JLedger \<lparr>draws = [], tickets = []\<rparr>),
               pendingWrite = Fulfilled, commits = 0\<rparr>,
       queue = [], replies = []\<rparr>
   = Some
      \<lparr>srv = \<lparr>disk = Json (JLedger \<lparr>draws = [], tickets =
                 [\<lparr>t_id = ''t2'', t_userId = ''bob'', t_numbers = [7, 8, 9, 10, 11, 12],
                   t_drawId = None, t_purchasedAt = ''2024-01-01''\<rparr>]\<rparr>),
               pendingWrite = Fulfilled, commits = 2\<rparr>,
       queue = [],
       replies =
         [Created201_ticket \<lparr>t_id = ''t1'', t_userId = ''alice'', t_numbers = [1, 2, 3, 4, 5, 6],
                             t_drawId = None, t_purchasedAt = ''2024-01-01''\<rparr>,
          Created201_ticket \<lparr>t_id = ''t2'', t_userId = ''bob'', t_numbers = [7, 8, 9, 10, 11, 12],
                             t_drawId = None, t_purchasedAt = ''2024-01-01''\<rparr>]\<rparr>"
  by (simp add: submit_buyTicket_def run_write_def handler_defs config_of_env_def env_limit_def)

section \<open>A purchase in flight across a draw\<close>

text \<open>Handled alone, \<open>draw\<close> is its submission followed by its write.\<close>

lemma draw_is_submit_then_write:
  "draw e user s =
     map_option (\<lambda>n. (last (replies n), srv n))
       (run cfg [SubmitDraw e user, Write] \<lparr>srv = s, queue = [], replies = []\<rparr>)"
  by (auto simp: draw_def draw_prepare_def submit_draw_def run_write_def Let_def
           split: option.splits sum.splits prod.splits)


end
